theory Spec2Isabelle
  imports Complex_Main "HOL-Library.Multiset"
begin

section \<open>Base station simulator control: data model\<close>

text \<open>
  The embedding covers the second script of \<^verbatim>\<open>js/address-search.js\<close> (from
  \<^verbatim>\<open>// === Base Station Simulator Control ===\<close> to \<^verbatim>\<open>loadStations()\<close>): the module-level
  variables become the fields of one record that every function takes and returns.
  Numbers are \<open>real\<close> (the loader keeps only rows whose coordinates have type number, and
  the CSV parser yields finite numbers only); \<open>coverageState\<close> is an \<open>int\<close>. A JavaScript
  \<^verbatim>\<open>undefined\<close> (an array read out of range) and the \<^verbatim>\<open>NaN\<close> it turns into under
  multiplication are \<open>None\<close>.
\<close>

record station =
  lat :: real
  lon :: real

text \<open>What a layer group holds. The fixed style options of each shape are left out.\<close>

datatype shape =
    Marker real real
  | CircleMarker real real
  | Circle real real "real option"

text \<open>A parsed CSV cell: \<^verbatim>\<open>typeof x === "number"\<close> or anything else.\<close>

datatype cell = Num real | NotNum

record site =
  latCell :: cell
  lonCell :: cell

text \<open>\<^verbatim>\<open>coverageBtn.querySelector("span").textContent\<close>: the empty string or a step.\<close>

datatype label = NoText | KmText "real option"

text \<open>One call of \<^verbatim>\<open>map.flyTo(latlng, zoom, {animate: true, duration})\<close>.\<close>

record flyCall =
  target :: "real \<times> real"
  zoom :: nat
  duration :: nat

text \<open>
  The \<^verbatim>\<open>await\<close> at which an activation of \<^verbatim>\<open>zoomStationsLoop\<close> is suspended, in source
  order, with the local \<^verbatim>\<open>target\<close> where it is still needed afterwards.
\<close>

datatype susp =
    Poll
  | FlyBase1 "real \<times> real"
  | FlyClose "real \<times> real"
  | PauseClose "real \<times> real"
  | FlyBase2
  | PauseBetween

record tour =
  waiting :: susp
  idx :: nat

datatype outcome = Suspended tour | Returned | Threw

record page =
  stations :: "station list"
  baseStationLayer :: "shape list"
  ringLayerGroup :: "shape list"
  coverageState :: int
  btnClass :: int
  btnText :: label
  ringInterval :: "nat option"
  simRunning :: bool
  stationOrder :: "nat list"
  intervals :: "(nat \<times> nat) list"
  timerSeq :: nat
  tours :: "tour list"
  flyLog :: "flyCall list"

text \<open>
  The last four fields are the environment the script runs in: \<open>intervals\<close> are the
  active \<^verbatim>\<open>setInterval\<close> timers (handle, and the \<^verbatim>\<open>idx\<close> its callback closes over),
  \<open>timerSeq\<close> counts the handles issued, \<open>tours\<close> are the suspended activations of
  \<^verbatim>\<open>zoomStationsLoop\<close> in the order of their last suspension, and \<open>flyLog\<close> records the
  calls of \<^verbatim>\<open>map.flyTo\<close>.
\<close>

definition coverageSteps :: "real list" where
  "coverageSteps = [0, 5, 10, 15, 20, 25, 30, 40]"

definition ZOOM_BASE :: nat where "ZOOM_BASE = 15"
definition ZOOM_CLOSE :: nat where "ZOOM_CLOSE = 11"
definition FLY_DUR_BASE :: nat where "FLY_DUR_BASE = 20"
definition FLY_DUR_CLOSE :: nat where "FLY_DUR_CLOSE = 25"

text \<open>\<^verbatim>\<open>coverageSteps[i]\<close>: \<^verbatim>\<open>undefined\<close> out of range.\<close>

definition stepAt :: "int \<Rightarrow> real option" where
  "stepAt i = (if 0 \<le> i \<and> i < int (length coverageSteps)
     then Some (coverageSteps ! nat i) else None)"

text \<open>
  The page as the script leaves it when it has run to its end, before any event. The
  look of the button comes from the document, which the script does not set before
  the load; it is taken to be that of state 7. No result below depends on it.
\<close>

definition initial :: page where
  "initial = \<lparr> stations = [], baseStationLayer = [], ringLayerGroup = [],
     coverageState = 7, btnClass = 7, btnText = KmText (Some 40),
     ringInterval = None, simRunning = False, stationOrder = [],
     intervals = [], timerSeq = 0, tours = [], flyLog = [] \<rparr>"

section \<open>Station order\<close>

text \<open>
  \<^verbatim>\<open>Array.prototype.sort(cmp)\<close> is stable; it is modelled by a stable insertion sort
  that puts \<open>a\<close> before \<open>b\<close> when \<open>cmp a b \<le> 0\<close>. For a comparator that is a
  difference of finite numbers every stable sort returns this list.
\<close>

fun sortInsert :: "('a \<Rightarrow> 'a \<Rightarrow> real) \<Rightarrow> 'a \<Rightarrow> 'a list \<Rightarrow> 'a list" where
  "sortInsert cmp a [] = [a]"
| "sortInsert cmp a (b # bs) =
     (if cmp a b \<le> 0 then a # b # bs else b # sortInsert cmp a bs)"

fun sortBy :: "('a \<Rightarrow> 'a \<Rightarrow> real) \<Rightarrow> 'a list \<Rightarrow> 'a list" where
  "sortBy cmp [] = []"
| "sortBy cmp (a # as) = sortInsert cmp a (sortBy cmp as)"

text \<open>\<^verbatim>\<open>(a, b) => b.lat - a.lat\<close> on the objects \<^verbatim>\<open>{ i, lat }\<close>.\<close>

definition byLatDesc :: "nat \<times> real \<Rightarrow> nat \<times> real \<Rightarrow> real" where
  "byLatDesc a b = snd b - snd a"

text \<open>\<^verbatim>\<open>stations.map((s, i) => ({ i, lat: s.lat }))\<close>.\<close>

definition keyed :: "station list \<Rightarrow> (nat \<times> real) list" where
  "keyed sts = map (\<lambda>(i, st). (i, lat st)) (enumerate 0 sts)"

definition rebuildStationOrder :: "page \<Rightarrow> page" where
  "rebuildStationOrder s =
     s\<lparr> stationOrder := map fst (sortBy byLatDesc (keyed (stations s))) \<rparr>"

section \<open>Coverage rings\<close>

definition clearCoverage :: "page \<Rightarrow> page" where
  "clearCoverage s = s\<lparr> ringLayerGroup := [] \<rparr>"

definition ringAt :: "real option \<Rightarrow> station \<Rightarrow> shape" where
  "ringAt km st = Circle (lat st) (lon st) (map_option (\<lambda>k. k * 1000) km)"

definition drawSingleRing :: "real option \<Rightarrow> page \<Rightarrow> page" where
  "drawSingleRing km s =
     (let s1 = clearCoverage s in
      if stations s1 = [] then s1
      else s1\<lparr> ringLayerGroup := ringLayerGroup s1 @ map (ringAt km) (stations s1) \<rparr>)"

section \<open>Tour loop\<close>

definition flyTo :: "real \<times> real \<Rightarrow> nat \<Rightarrow> nat \<Rightarrow> page \<Rightarrow> page" where
  "flyTo t z d s = s\<lparr> flyLog := flyLog s @ [\<lparr> target = t, zoom = z, duration = d \<rparr>] \<rparr>"

text \<open>
  One pass from the \<^verbatim>\<open>while (simRunning)\<close> test to the first \<^verbatim>\<open>await\<close> of the body.
  Reading \<^verbatim>\<open>s.lat\<close> of an \<^verbatim>\<open>undefined\<close> station throws.
\<close>

definition loopHead :: "nat \<Rightarrow> page \<Rightarrow> page \<times> outcome" where
  "loopHead i s =
     (if \<not> simRunning s then (s, Returned)
      else if stations s = [] \<or> stationOrder s = []
        then (s, Suspended \<lparr> waiting = Poll, idx = i \<rparr>)
      else
        let sIndex = stationOrder s ! (i mod length (stationOrder s)) in
        if sIndex < length (stations s) then
          let st = stations s ! sIndex; t = (lat st, lon st) in
          (flyTo t ZOOM_BASE FLY_DUR_BASE s, Suspended \<lparr> waiting = FlyBase1 t, idx = i \<rparr>)
        else (s, Threw))"

text \<open>The code that runs when the awaited promise of a suspended activation resolves.\<close>

definition resume :: "tour \<Rightarrow> page \<Rightarrow> page \<times> outcome" where
  "resume t s =
     (case waiting t of
        Poll \<Rightarrow> loopHead (idx t) s
      | FlyBase1 tg \<Rightarrow>
          if \<not> simRunning s then (s, Returned)
          else (flyTo tg ZOOM_CLOSE FLY_DUR_CLOSE s, Suspended (t\<lparr> waiting := FlyClose tg \<rparr>))
      | FlyClose tg \<Rightarrow>
          if \<not> simRunning s then (s, Returned)
          else (s, Suspended (t\<lparr> waiting := PauseClose tg \<rparr>))
      | PauseClose tg \<Rightarrow>
          if \<not> simRunning s then (s, Returned)
          else (flyTo tg ZOOM_BASE FLY_DUR_BASE s, Suspended (t\<lparr> waiting := FlyBase2 \<rparr>))
      | FlyBase2 \<Rightarrow>
          if \<not> simRunning s then (s, Returned)
          else (s, Suspended (t\<lparr> waiting := PauseBetween \<rparr>))
      | PauseBetween \<Rightarrow> loopHead (idx t + 1) s)"

text \<open>A suspended activation joins the pending ones; a finished one is gone.\<close>

definition settle :: "page \<times> outcome \<Rightarrow> page" where
  "settle r = (case snd r of
       Suspended t \<Rightarrow> (fst r)\<lparr> tours := tours (fst r) @ [t] \<rparr>
     | Returned \<Rightarrow> fst r
     | Threw \<Rightarrow> fst r)"

definition zoomStationsLoop :: "page \<Rightarrow> page" where
  "zoomStationsLoop s =
     (let s1 = (if stationOrder s = [] then rebuildStationOrder s else s)
      in settle (loopHead 0 s1))"

section \<open>Ring cycle and simulation control\<close>

definition clearInterval :: "nat \<Rightarrow> page \<Rightarrow> page" where
  "clearInterval h s = s\<lparr> intervals := filter (\<lambda>t. fst t \<noteq> h) (intervals s) \<rparr>"

text \<open>\<^verbatim>\<open>if (ringInterval) clearInterval(ringInterval)\<close>: \<^verbatim>\<open>null\<close> and \<open>0\<close> are falsy.\<close>

definition clearRingInterval :: "page \<Rightarrow> page" where
  "clearRingInterval s = (case ringInterval s of
       None \<Rightarrow> s
     | Some h \<Rightarrow> if h \<noteq> 0 then clearInterval h s else s)"

text \<open>\<^verbatim>\<open>setInterval\<close> issues the next handle, a positive number not used before.\<close>

definition startRingCycle :: "page \<Rightarrow> page" where
  "startRingCycle s =
     (let s1 = clearCoverage s;
          s2 = clearRingInterval s1;
          h = Suc (timerSeq s2)
      in s2\<lparr> timerSeq := h, intervals := intervals s2 @ [(h, 1)], ringInterval := Some h \<rparr>)"

definition stopRingCycle :: "page \<Rightarrow> page" where
  "stopRingCycle s = (clearRingInterval s)\<lparr> ringInterval := None \<rparr>"

text \<open>The callback of the interval with handle \<open>h\<close>, if that interval is still active.\<close>

definition nextIdx :: "nat \<Rightarrow> nat" where
  "nextIdx i = (if i + 1 \<ge> length coverageSteps then 1 else i + 1)"

definition intervalFire :: "nat \<Rightarrow> page \<Rightarrow> page" where
  "intervalFire h s = (case map_of (intervals s) h of
       None \<Rightarrow> s
     | Some i \<Rightarrow>
         (drawSingleRing (stepAt (int i)) s)
           \<lparr> intervals := map (\<lambda>t. if fst t = h then (h, nextIdx i) else t) (intervals s) \<rparr>)"

definition startSimulation :: "page \<Rightarrow> page" where
  "startSimulation s =
     (if simRunning s then s
      else zoomStationsLoop (startRingCycle (s\<lparr> simRunning := True \<rparr>)))"

definition stopSimulation :: "page \<Rightarrow> page" where
  "stopSimulation s = stopRingCycle (s\<lparr> simRunning := False \<rparr>)"

section \<open>Button and loader\<close>

definition click :: "page \<Rightarrow> page" where
  "click s =
     (let c1 = coverageState s + 1;
          c = (if c1 > 8 then 0 else c1);
          s1 = s\<lparr> coverageState := c, btnClass := c,
                 btnText := (if c \<ge> 1 \<and> c \<le> 7 then KmText (stepAt c) else NoText) \<rparr>;
          s2 = stopSimulation s1
      in if c = 0 then clearCoverage s2
         else if c \<ge> 1 \<and> c \<le> 7 then drawSingleRing (stepAt c) s2
         else if c = 8 then startSimulation s2
         else s2)"

definition addSite :: "page \<Rightarrow> site \<Rightarrow> page" where
  "addSite s r = (case (latCell r, lonCell r) of
       (Num la, Num lo) \<Rightarrow>
         s\<lparr> stations := stations s @ [\<lparr> lat = la, lon = lo \<rparr>],
            baseStationLayer := baseStationLayer s @ [Marker la lo, CircleMarker la lo] \<rparr>
     | _ \<Rightarrow> s)"

text \<open>The \<^verbatim>\<open>complete\<close> callback of the CSV parse, on the parsed rows.\<close>

definition loadComplete :: "site list \<Rightarrow> page \<Rightarrow> page" where
  "loadComplete rows s =
     (let s1 = foldl addSite s rows;
          s2 = rebuildStationOrder s1;
          s3 = s2\<lparr> btnClass := 7, btnText := KmText (stepAt 7) \<rparr>
      in drawSingleRing (stepAt 7) s3)"

section \<open>Event loop\<close>

text \<open>
  The page is single-threaded: each event runs its handler to completion. Time is
  not modelled: an event may arrive whenever its source is pending. A
  \<^verbatim>\<open>moveend\<close> of the map resolves every activation that awaits a fly (each has its
  listener registered), in the order of registration; a timeout resolves the one
  activation that sleeps on it.
\<close>

fun awaitsFly :: "tour \<Rightarrow> bool" where
  "awaitsFly t = (case waiting t of
       FlyBase1 _ \<Rightarrow> True | FlyClose _ \<Rightarrow> True | FlyBase2 \<Rightarrow> True | _ \<Rightarrow> False)"

fun resumeAll :: "tour list \<Rightarrow> page \<Rightarrow> page" where
  "resumeAll [] s = s"
| "resumeAll (t # ts) s = resumeAll ts (settle (resume t s))"

definition moveEnd :: "page \<Rightarrow> page" where
  "moveEnd s = resumeAll (filter awaitsFly (tours s))
     (s\<lparr> tours := filter (\<lambda>t. \<not> awaitsFly t) (tours s) \<rparr>)"

definition sleepFire :: "nat \<Rightarrow> page \<Rightarrow> page" where
  "sleepFire k s =
     (if k < length (tours s) \<and> \<not> awaitsFly (tours s ! k)
      then settle (resume (tours s ! k) (s\<lparr> tours := take k (tours s) @ drop (Suc k) (tours s) \<rparr>))
      else s)"

datatype event = Click | LoadComplete "site list" | IntervalFire nat | MoveEnd | SleepFire nat

fun step :: "event \<Rightarrow> page \<Rightarrow> page" where
  "step Click s = click s"
| "step (LoadComplete rows) s = loadComplete rows s"
| "step (IntervalFire h) s = intervalFire h s"
| "step MoveEnd s = moveEnd s"
| "step (SleepFire k) s = sleepFire k s"

fun run :: "event list \<Rightarrow> page \<Rightarrow> page" where
  "run [] s = s"
| "run (e # es) s = run es (step e s)"

section \<open>Auxiliary notions\<close>

text \<open>The order the comparator asks for: the later element is not further north.\<close>

definition northFirst :: "nat \<times> real \<Rightarrow> nat \<times> real \<Rightarrow> bool" where
  "northFirst a b = (snd b \<le> snd a)"

text \<open>
  Resuming a tour activation writes only \<open>tours\<close> and \<open>flyLog\<close>: the fields gathered in
  \<open>ctl\<close> pass through \<open>loopHead\<close>, \<open>resume\<close>, \<open>settle\<close>, \<open>moveEnd\<close> and
  \<open>sleepFire\<close> unchanged.
\<close>

definition ctl ::
  "page \<Rightarrow> station list \<times> shape list \<times> shape list \<times> int \<times> int \<times> label \<times>
     nat option \<times> bool \<times> nat list \<times> (nat \<times> nat) list \<times> nat" where
  "ctl s = (stations s, baseStationLayer s, ringLayerGroup s, coverageState s, btnClass s,
     btnText s, ringInterval s, simRunning s, stationOrder s, intervals s, timerSeq s)"

text \<open>
  The timer invariant: the only active interval is the one \<open>ringInterval\<close> names, and
  its handle has been issued already.
\<close>

definition timersOk :: "page \<Rightarrow> bool" where
  "timersOk s = (case ringInterval s of
       None \<Rightarrow> intervals s = []
     | Some h \<Rightarrow> 0 < h \<and> h \<le> timerSeq s \<and> map fst (intervals s) = [h])"

text \<open>The order invariant: \<open>stationOrder\<close> is what \<open>rebuildStationOrder\<close> would compute.\<close>

definition orderFresh :: "page \<Rightarrow> bool" where
  "orderFresh s = (stationOrder s = map fst (sortBy byLatDesc (keyed (stations s))))"

section \<open>Station order is a latitude-sorted permutation\<close>

lemma mset_sortInsert: "mset (sortInsert cmp a bs) = add_mset a (mset bs)"
  by (induction bs) auto

lemma mset_sortBy: "mset (sortBy cmp as) = mset as"
  by (induction as) (auto simp: mset_sortInsert)

lemma set_sortInsert: "set (sortInsert cmp a bs) = insert a (set bs)"
  by (induction bs) auto

lemma set_sortBy: "set (sortBy cmp as) = set as"
  by (induction as) (auto simp: set_sortInsert)

lemma sorted_sortInsert:
  "sorted_wrt northFirst bs \<Longrightarrow> sorted_wrt northFirst (sortInsert byLatDesc a bs)"
proof (induction bs)
  case Nil
  then show ?case by simp
next
  case (Cons b bs)
  show ?case
  proof (cases "byLatDesc a b \<le> 0")
    case True
    then have ab: "snd b \<le> snd a" by (simp add: byLatDesc_def)
    have "\<forall>c\<in>set bs. snd c \<le> snd b" using Cons.prems by (simp add: northFirst_def)
    with ab have "\<forall>c\<in>set (b # bs). northFirst a c" by (auto simp: northFirst_def)
    with True Cons.prems show ?thesis by simp
  next
    case False
    then have "northFirst b a" by (simp add: byLatDesc_def northFirst_def)
    with False Cons show ?thesis by (auto simp: set_sortInsert)
  qed
qed

lemma sorted_sortBy: "sorted_wrt northFirst (sortBy byLatDesc as)"
  by (induction as) (auto intro: sorted_sortInsert)

lemma map_fst_keyed: "map fst (keyed sts) = [0..<length sts]"
  by (simp add: keyed_def enumerate_eq_zip case_prod_unfold comp_def)

lemma keyed_lat: "p \<in> set (keyed sts) \<Longrightarrow> snd p = lat (sts ! fst p)"
  by (auto simp: keyed_def enumerate_eq_zip in_set_zip)

lemma order_mset:
  "mset (stationOrder (rebuildStationOrder s)) = mset [0..<length (stations s)]"
proof -
  have "mset (map fst (sortBy byLatDesc (keyed (stations s)))) =
        mset (map fst (keyed (stations s)))"
    by (simp add: mset_sortBy)
  then show ?thesis by (simp add: rebuildStationOrder_def map_fst_keyed)
qed

lemma order_sorted:
  "sorted_wrt (\<lambda>i j. lat (stations s ! j) \<le> lat (stations s ! i))
     (stationOrder (rebuildStationOrder s))"
proof -
  let ?ps = "sortBy byLatDesc (keyed (stations s))"
  have a: "sorted_wrt northFirst ?ps" by (rule sorted_sortBy)
  have b: "\<forall>p\<in>set ?ps. snd p = lat (stations s ! fst p)"
    by (simp add: set_sortBy keyed_lat)
  have "sorted_wrt (\<lambda>p q. lat (stations s ! fst q) \<le> lat (stations s ! fst p)) ?ps"
  proof (rule sorted_wrt_mono_rel[OF _ a])
    fix p q
    assume "p \<in> set ?ps" "q \<in> set ?ps" "northFirst p q"
    with b show "lat (stations s ! fst q) \<le> lat (stations s ! fst p)"
      by (simp add: northFirst_def)
  qed
  then show ?thesis by (simp add: rebuildStationOrder_def sorted_wrt_map)
qed

lemma order_three:
  "stationOrder (rebuildStationOrder (s\<lparr> stations :=
     [\<lparr> lat = -10, lon = a \<rparr>, \<lparr> lat = 20, lon = b \<rparr>, \<lparr> lat = 5, lon = c \<rparr>] \<rparr>)) = [1, 2, 0]"
  by (simp add: rebuildStationOrder_def keyed_def enumerate_eq_zip byLatDesc_def upt_rec)

text \<open>
  C4. For every non-empty station store, \<open>rebuildStationOrder\<close> leaves in
  \<open>stationOrder\<close> a permutation of the indices \<open>0, \<dots>, length stations - 1\<close> in which
  the latitude never increases from one position to the next; for three stations
  with latitudes \<open>-10, 20, 5\<close> (any longitudes, any other state) the order is \<open>[1, 2, 0]\<close>.
\<close>

theorem rebuildStationOrder_sorted_permutation:
  "(stations s \<noteq> [] \<longrightarrow>
      mset (stationOrder (rebuildStationOrder s)) = mset [0..<length (stations s)] \<and>
      sorted_wrt (\<lambda>i j. lat (stations s ! j) \<le> lat (stations s ! i))
        (stationOrder (rebuildStationOrder s))) \<and>
   stationOrder (rebuildStationOrder (s\<lparr> stations :=
     [\<lparr> lat = -10, lon = a \<rparr>, \<lparr> lat = 20, lon = b \<rparr>, \<lparr> lat = 5, lon = c \<rparr>] \<rparr>)) = [1, 2, 0]"
  by (simp only: order_mset order_sorted order_three simp_thms)

theorem rebuildStationOrder_sorted_permutation_witness:
  "stations (initial\<lparr> stations := [\<lparr> lat = 3, lon = 0 \<rparr>, \<lparr> lat = 3, lon = 1 \<rparr>, \<lparr> lat = 8, lon = 2 \<rparr>] \<rparr>) \<noteq> [] \<and>
   stationOrder (rebuildStationOrder
     (initial\<lparr> stations := [\<lparr> lat = 3, lon = 0 \<rparr>, \<lparr> lat = 3, lon = 1 \<rparr>, \<lparr> lat = 8, lon = 2 \<rparr>] \<rparr>)) = [2, 0, 1] \<and>
   mset [2, 0, 1] = mset [0..<3::nat] \<and>
   sorted_wrt (\<lambda>i j. [3, 3, 8::real] ! j \<le> [3, 3, 8] ! i) [2, 0, 1::nat]"
  using rebuildStationOrder_sorted_permutation
    [of "initial\<lparr> stations := [\<lparr> lat = 3, lon = 0 \<rparr>, \<lparr> lat = 3, lon = 1 \<rparr>, \<lparr> lat = 8, lon = 2 \<rparr>] \<rparr>" 0 0 0]
  by (simp add: rebuildStationOrder_def keyed_def enumerate_eq_zip byLatDesc_def upt_rec)

section \<open>Drawing and clearing rings\<close>

text \<open>
  C8. For every radius (also an undefined one) and every page state, drawing a single
  ring and then clearing the coverage leaves the ring layer empty.
\<close>

theorem drawSingleRing_then_clearCoverage_empty:
  "ringLayerGroup (clearCoverage (drawSingleRing km s)) = []"
  by (simp add: clearCoverage_def)

text \<open>
  C9. With no station loaded, \<open>drawSingleRing\<close> returns at its guard for every radius:
  the ring layer is empty afterwards, no other field of the page changes, and a page
  whose ring layer was already empty is returned as it was. The function has no
  error exit; the guard stands before the only library call that builds a shape.
\<close>

theorem drawSingleRing_empty_store:
  "stations s = [] \<Longrightarrow>
     ringLayerGroup (drawSingleRing km s) = [] \<and>
     drawSingleRing km s = s\<lparr> ringLayerGroup := [] \<rparr> \<and>
     (ringLayerGroup s = [] \<longrightarrow> drawSingleRing km s = s)"
  by (auto simp: drawSingleRing_def clearCoverage_def Let_def)

theorem drawSingleRing_empty_store_witness:
  "stations initial = [] \<and> ringLayerGroup initial = [] \<and>
   ringLayerGroup (drawSingleRing (Some 10) initial) = [] \<and>
   drawSingleRing (Some 10) initial = initial"
  using drawSingleRing_empty_store [of initial "Some 10"]
  by (simp add: initial_def)

section \<open>What the tour loop leaves alone\<close>

lemma ctl_eqD:
  "ctl a = ctl b \<Longrightarrow>
     stations a = stations b \<and> baseStationLayer a = baseStationLayer b \<and>
     ringLayerGroup a = ringLayerGroup b \<and> coverageState a = coverageState b \<and>
     btnClass a = btnClass b \<and> btnText a = btnText b \<and> ringInterval a = ringInterval b \<and>
     simRunning a = simRunning b \<and> stationOrder a = stationOrder b \<and>
     intervals a = intervals b \<and> timerSeq a = timerSeq b"
  by (simp add: ctl_def)

lemma ctl_loopHead: "ctl (fst (loopHead i s)) = ctl s"
  by (simp add: loopHead_def Let_def flyTo_def ctl_def)

lemma ctl_resume: "ctl (fst (resume t s)) = ctl s"
  by (cases "waiting t") (simp_all add: resume_def flyTo_def ctl_loopHead, simp_all add: ctl_def)

lemma ctl_settle: "ctl (settle r) = ctl (fst r)"
  by (simp add: settle_def ctl_def split: outcome.splits)

lemma ctl_resumeAll: "ctl (resumeAll ts s) = ctl s"
  by (induction ts arbitrary: s) (simp_all add: ctl_settle ctl_resume)

lemma ctl_moveEnd: "ctl (moveEnd s) = ctl s"
  by (simp add: moveEnd_def ctl_resumeAll) (simp add: ctl_def)

lemma ctl_sleepFire: "ctl (sleepFire k s) = ctl s"
  by (simp add: sleepFire_def ctl_settle ctl_resume) (simp add: ctl_def)

lemmas loopHead_keeps [simp] = ctl_eqD [OF ctl_loopHead]
lemmas resume_keeps [simp] = ctl_eqD [OF ctl_resume]
lemmas settle_keeps [simp] = ctl_eqD [OF ctl_settle]
lemmas moveEnd_keeps [simp] = ctl_eqD [OF ctl_moveEnd]
lemmas sleepFire_keeps [simp] = ctl_eqD [OF ctl_sleepFire]

section \<open>Coverage state\<close>

lemma coverageState_clearRingInterval [simp]:
  "coverageState (clearRingInterval s) = coverageState s"
  by (simp add: clearRingInterval_def clearInterval_def split: option.splits)

lemma coverageState_stopSimulation [simp]: "coverageState (stopSimulation s) = coverageState s"
  by (simp add: stopSimulation_def stopRingCycle_def)

lemma coverageState_drawSingleRing [simp]: "coverageState (drawSingleRing km s) = coverageState s"
  by (simp add: drawSingleRing_def clearCoverage_def Let_def)

lemma coverageState_startSimulation [simp]: "coverageState (startSimulation s) = coverageState s"
  by (simp add: startSimulation_def zoomStationsLoop_def startRingCycle_def Let_def
      rebuildStationOrder_def clearCoverage_def)

lemma coverageState_click:
  "coverageState (click s) = (if coverageState s + 1 > 8 then 0 else coverageState s + 1)"
  by (simp add: click_def Let_def clearCoverage_def)

lemma coverageState_foldl_addSite [simp]: "coverageState (foldl addSite s rows) = coverageState s"
  by (induction rows arbitrary: s) (simp_all add: addSite_def split: cell.splits)

lemma coverageState_loadComplete [simp]: "coverageState (loadComplete rows s) = coverageState s"
  by (simp add: loadComplete_def Let_def rebuildStationOrder_def)

lemma coverageState_intervalFire [simp]: "coverageState (intervalFire h s) = coverageState s"
  by (simp add: intervalFire_def split: option.splits)

lemma coverageState_step:
  "coverageState (step e s) =
     (if e = Click then (if coverageState s + 1 > 8 then 0 else coverageState s + 1)
      else coverageState s)"
  by (cases e) (simp_all add: coverageState_click)

lemma run_mod9:
  "0 \<le> coverageState s \<Longrightarrow> coverageState s \<le> 8 \<Longrightarrow>
     coverageState (run evs s) = (coverageState s + int (count_list evs Click)) mod 9"
proof (induction evs arbitrary: s)
  case Nil
  then show ?case by simp
next
  case (Cons e evs)
  have r: "0 \<le> coverageState (step e s) \<and> coverageState (step e s) \<le> 8"
    using Cons.prems by (simp add: coverageState_step)
  show ?case
  proof (cases "e = Click")
    case True
    have "coverageState (run (e # evs) s) =
          (coverageState (step e s) + int (count_list evs Click)) mod 9"
      using Cons.IH r by simp
    also have "coverageState (step e s) = (coverageState s + 1) mod 9"
      using True Cons.prems by (simp add: coverageState_click)
    finally show ?thesis using True by (simp add: mod_simps ac_simps)
  next
    case False
    then show ?thesis using Cons.IH [of "step e s"] r by (simp add: coverageState_step)
  qed
qed

lemma funpow_click_run: "(click ^^ n) s = run (replicate n Click) s"
  by (induction n arbitrary: s) (simp_all add: funpow_Suc_right del: funpow.simps)

lemma count_list_replicate_Click: "count_list (replicate n Click) Click = n"
  by (induction n) simp_all

text \<open>
  C3. From a coverage state \<open>s\<close> in \<open>0..8\<close> one activation of the button leads to
  \<open>(s + 1) mod 9\<close>, again in \<open>0..8\<close>; nine activations lead back to \<open>s\<close>; and since no
  other event writes the state, after any sequence of events it is \<open>s\<close> plus the number
  of activations in the sequence, modulo 9.
\<close>

theorem coverageState_successor_mod_9:
  assumes "coverageState s \<in> {0..8}"
  shows "coverageState (click s) = (coverageState s + 1) mod 9 \<and>
         coverageState (click s) \<in> {0..8} \<and>
         coverageState ((click ^^ 9) s) = coverageState s \<and>
         coverageState (run evs s) = (coverageState s + int (count_list evs Click)) mod 9"
proof -
  from assms have a: "0 \<le> coverageState s" "coverageState s \<le> 8" by simp_all
  have "coverageState ((click ^^ 9) s) = coverageState s"
    using run_mod9 [OF a, of "replicate 9 Click"] a
    by (simp add: funpow_click_run count_list_replicate_Click)
  moreover have "coverageState (click s) = (coverageState s + 1) mod 9"
    using a by (simp add: coverageState_click)
  moreover have "coverageState (click s) \<in> {0..8}"
    using a by (simp add: coverageState_click)
  ultimately show ?thesis using run_mod9 [OF a] by simp
qed

theorem coverageState_successor_mod_9_witness:
  "coverageState initial \<in> {0..8} \<and>
   coverageState (click initial) = 8 \<and>
   coverageState ((click ^^ 9) initial) = 7 \<and>
   coverageState (run [Click, MoveEnd, Click] initial) = 0"
  using coverageState_successor_mod_9 [of initial "[Click, MoveEnd, Click]"]
  by (simp add: initial_def)

section \<open>Load completion\<close>

lemma foldl_addSite_keeps:
  "ringLayerGroup (foldl addSite s rows) = ringLayerGroup s \<and>
   coverageState (foldl addSite s rows) = coverageState s"
  by (induction rows arbitrary: s) (simp_all add: addSite_def split: cell.splits)







section \<open>The timer invariant\<close>

lemma timersOk_initial: "timersOk initial"
  by (simp add: timersOk_def initial_def)

lemma intervals_clearRingInterval:
  "timersOk s \<Longrightarrow> intervals (clearRingInterval s) = []"
  by (auto simp: timersOk_def clearRingInterval_def clearInterval_def split: option.splits)

lemma stopRingCycle_eq:
  "timersOk s \<Longrightarrow> stopRingCycle s = s\<lparr> intervals := [], ringInterval := None \<rparr>"
  by (auto simp: timersOk_def stopRingCycle_def clearRingInterval_def clearInterval_def
      split: option.splits)

lemma startRingCycle_eq:
  "timersOk s \<Longrightarrow> startRingCycle s =
     s\<lparr> ringLayerGroup := [], timerSeq := Suc (timerSeq s),
        intervals := [(Suc (timerSeq s), 1)], ringInterval := Some (Suc (timerSeq s)) \<rparr>"
  by (auto simp: timersOk_def startRingCycle_def clearCoverage_def clearRingInterval_def
      clearInterval_def Let_def split: option.splits)

lemma timersOk_cong:
  "ringInterval a = ringInterval b \<Longrightarrow> intervals a = intervals b \<Longrightarrow> timerSeq a = timerSeq b
     \<Longrightarrow> timersOk a = timersOk b"
  by (simp add: timersOk_def cong: option.case_cong)

lemma timersOk_simRunning_update [simp]: "timersOk (s\<lparr> simRunning := b \<rparr>) = timersOk s"
  by (rule timersOk_cong) simp_all

lemma timersOk_button_update [simp]:
  "timersOk (s\<lparr> coverageState := c, btnClass := d, btnText := l \<rparr>) = timersOk s"
  by (rule timersOk_cong) simp_all

lemma timersOk_stopRingCycle: "timersOk s \<Longrightarrow> timersOk (stopRingCycle s)"
  by (simp add: stopRingCycle_eq) (simp add: timersOk_def)

lemma timersOk_startRingCycle: "timersOk s \<Longrightarrow> timersOk (startRingCycle s)"
  by (simp add: startRingCycle_eq) (simp add: timersOk_def)

lemma timersOk_drawSingleRing [simp]: "timersOk (drawSingleRing km s) = timersOk s"
  by (rule timersOk_cong) (simp_all add: drawSingleRing_def clearCoverage_def Let_def)

lemma timersOk_clearCoverage [simp]: "timersOk (clearCoverage s) = timersOk s"
  by (rule timersOk_cong) (simp_all add: clearCoverage_def)

lemma timersOk_zoomStationsLoop [simp]: "timersOk (zoomStationsLoop s) = timersOk s"
  by (rule timersOk_cong) (simp_all add: zoomStationsLoop_def rebuildStationOrder_def)

lemma timersOk_startSimulation: "timersOk s \<Longrightarrow> timersOk (startSimulation s)"
  by (simp add: startSimulation_def timersOk_startRingCycle)

lemma timersOk_stopSimulation: "timersOk s \<Longrightarrow> timersOk (stopSimulation s)"
  by (simp add: stopSimulation_def timersOk_stopRingCycle)

lemma timersOk_click: "timersOk s \<Longrightarrow> timersOk (click s)"
  by (simp add: click_def Let_def timersOk_startSimulation timersOk_stopSimulation)

lemma timersOk_loadComplete [simp]: "timersOk (loadComplete rows s) = timersOk s"
proof -
  have "ringInterval (foldl addSite s rows) = ringInterval s \<and>
        intervals (foldl addSite s rows) = intervals s \<and>
        timerSeq (foldl addSite s rows) = timerSeq s"
    by (induction rows arbitrary: s) (simp_all add: addSite_def split: cell.splits)
  then show ?thesis
    by (intro timersOk_cong)
       (simp_all add: loadComplete_def Let_def rebuildStationOrder_def drawSingleRing_def
          clearCoverage_def)
qed

lemma timersOk_moveEnd [simp]: "timersOk (moveEnd s) = timersOk s"
  by (rule timersOk_cong) simp_all

lemma timersOk_sleepFire [simp]: "timersOk (sleepFire k s) = timersOk s"
  by (rule timersOk_cong) simp_all

lemma timersOk_intervalFire: "timersOk s \<Longrightarrow> timersOk (intervalFire h s)"
  by (auto simp: timersOk_def intervalFire_def drawSingleRing_def clearCoverage_def Let_def
      split: option.splits)

lemma timersOk_step: "timersOk s \<Longrightarrow> timersOk (step e s)"
  by (cases e) (simp_all add: timersOk_click timersOk_intervalFire)

lemma timersOk_run: "timersOk s \<Longrightarrow> timersOk (run evs s)"
  by (induction evs arbitrary: s) (simp_all add: timersOk_step)

lemma timersOk_reachable: "timersOk (run evs initial)"
  by (simp add: timersOk_run timersOk_initial)

lemma timersOk_length: "timersOk s \<Longrightarrow> length (intervals s) \<le> 1"
  by (auto simp: timersOk_def split: option.splits dest: arg_cong [where f = length])

text \<open>
  C7. In every state the page can reach (after any sequence of events) at most one
  interval timer is active. \<open>startRingCycle\<close> called there leaves exactly one: its own,
  under a handle that differs from the one \<open>ringInterval\<close> held, with the callback's
  index at 1. \<open>stopRingCycle\<close> called there leaves no timer and a null
  \<open>ringInterval\<close>; in any state whatever it leaves the ring layer as it was.
\<close>

theorem ring_cycle_single_timer:
  "length (intervals (run evs initial)) \<le> 1 \<and>
   intervals (startRingCycle (run evs initial)) = [(Suc (timerSeq (run evs initial)), 1)] \<and>
   ringInterval (startRingCycle (run evs initial)) = Some (Suc (timerSeq (run evs initial))) \<and>
   ringInterval (run evs initial) \<noteq> Some (Suc (timerSeq (run evs initial))) \<and>
   ringInterval (stopRingCycle (run evs initial)) = None \<and>
   intervals (stopRingCycle (run evs initial)) = [] \<and>
   ringLayerGroup (stopRingCycle s) = ringLayerGroup s"
proof -
  have ok: "timersOk (run evs initial)" by (rule timersOk_reachable)
  then have "ringInterval (run evs initial) \<noteq> Some (Suc (timerSeq (run evs initial)))"
    by (auto simp: timersOk_def)
  moreover have "ringLayerGroup (stopRingCycle s) = ringLayerGroup s"
    by (simp add: stopRingCycle_def clearRingInterval_def clearInterval_def split: option.splits)
  ultimately show ?thesis
    using timersOk_length [OF ok] by (simp add: startRingCycle_eq [OF ok] stopRingCycle_eq [OF ok])
qed

section \<open>The ring cycle\<close>

lemma nextIdx_cycle: "nextIdx (Suc (k mod 7)) = Suc (Suc k mod 7)"
proof -
  have "k mod 7 < 7" by simp
  then consider "k mod 7 = 6" | "k mod 7 < 6" by linarith
  then show ?thesis
  proof cases
    case 1
    then have "Suc k mod 7 = 0" by (simp add: mod_Suc)
    with 1 show ?thesis by (simp add: nextIdx_def coverageSteps_def)
  next
    case 2
    then have "Suc k mod 7 = Suc (k mod 7)" by (simp add: mod_Suc)
    with 2 show ?thesis by (simp add: nextIdx_def coverageSteps_def)
  qed
qed

lemma stepAt_cycle:
  "stepAt (int (Suc (k mod 7))) = Some ([5, 10, 15, 20, 25, 30, 40] ! (k mod 7))"
proof -
  have "k mod 7 < 7" by simp
  then have "k mod 7 \<in> {0, 1, 2, 3, 4, 5, 6}" by auto
  then show ?thesis
    by (auto simp: stepAt_def coverageSteps_def)
qed

lemma cycle_nonzero: "[5, 10, 15, 20, 25, 30, 40::real] ! (k mod 7) \<noteq> 0"
proof -
  have "k mod 7 < 7" by simp
  then have "k mod 7 \<in> {0, 1, 2, 3, 4, 5, 6}" by auto
  then show ?thesis by auto
qed

lemma intervalFire_single:
  "intervals s = [(h, i)] \<Longrightarrow>
     intervals (intervalFire h s) = [(h, nextIdx i)] \<and>
     ringLayerGroup (intervalFire h s) = map (ringAt (stepAt (int i))) (stations s) \<and>
     ringInterval (intervalFire h s) = ringInterval s \<and>
     stations (intervalFire h s) = stations s"
  by (simp add: intervalFire_def drawSingleRing_def clearCoverage_def Let_def)

lemma intervalFire_other:
  "intervals s = [(h, i)] \<Longrightarrow> h' \<noteq> h \<Longrightarrow> intervalFire h' s = s"
  by (simp add: intervalFire_def)

lemma intervals_loadComplete [simp]: "intervals (loadComplete rows s) = intervals s"
proof -
  have "intervals (foldl addSite s rows) = intervals s"
    by (induction rows arbitrary: s) (simp_all add: addSite_def split: cell.splits)
  then show ?thesis
    by (simp add: loadComplete_def Let_def rebuildStationOrder_def drawSingleRing_def clearCoverage_def)
qed

lemma ringInterval_loadComplete [simp]: "ringInterval (loadComplete rows s) = ringInterval s"
proof -
  have "ringInterval (foldl addSite s rows) = ringInterval s"
    by (induction rows arbitrary: s) (simp_all add: addSite_def split: cell.splits)
  then show ?thesis
    by (simp add: loadComplete_def Let_def rebuildStationOrder_def drawSingleRing_def clearCoverage_def)
qed

lemma cycle_step:
  assumes "intervals s = [(h, Suc (k mod 7))]" "e \<noteq> Click"
  shows "intervals (step e s) = [(h, Suc ((k + count_list [e] (IntervalFire h)) mod 7))] \<and>
         ringInterval (step e s) = ringInterval s"
proof (cases e)
  case (IntervalFire h')
  show ?thesis
  proof (cases "h' = h")
    case True
    with IntervalFire assms(1) show ?thesis
      using intervalFire_single [of s h "Suc (k mod 7)"] by (simp add: nextIdx_cycle)
  next
    case False
    with IntervalFire assms(1) show ?thesis by (simp add: intervalFire_other)
  qed
qed (use assms in simp_all)

lemma cycle_run:
  "intervals s = [(h, Suc (k mod 7))] \<Longrightarrow> Click \<notin> set es \<Longrightarrow>
     intervals (run es s) = [(h, Suc ((k + count_list es (IntervalFire h)) mod 7))] \<and>
     ringInterval (run es s) = ringInterval s"
proof (induction es arbitrary: s k)
  case Nil
  then show ?case by simp
next
  case (Cons e es)
  from Cons.prems have ne: "e \<noteq> Click" and rest: "Click \<notin> set es" by auto
  let ?k = "k + count_list [e] (IntervalFire h)"
  from cycle_step [OF Cons.prems(1) ne]
  have st: "intervals (step e s) = [(h, Suc (?k mod 7))]" and ri: "ringInterval (step e s) = ringInterval s"
    by simp_all
  from Cons.IH [OF st rest] ri show ?case by (simp add: add.assoc)
qed

text \<open>
  The activation of the button that enters state 8 starts the cycle just as a direct
  call of \<open>startRingCycle\<close> does: one timer, under the next handle, its index at 1.
\<close>

lemma click_starts_cycle:
  assumes "timersOk s" "coverageState s = 7"
  shows "intervals (click s) = [(Suc (timerSeq s), 1)] \<and>
         ringInterval (click s) = Some (Suc (timerSeq s))"
proof -
  let ?s1 = "s\<lparr> coverageState := 8, btnClass := 8, btnText := NoText, simRunning := False \<rparr>"
  let ?s3 = "?s1\<lparr> intervals := [], ringInterval := None, simRunning := True \<rparr>"
  have ok1: "timersOk ?s1" using assms(1) by simp
  have ok3: "timersOk ?s3" by (simp add: timersOk_def)
  have c: "click s = startSimulation (stopSimulation
      (s\<lparr> coverageState := 8, btnClass := 8, btnText := NoText \<rparr>))"
    using assms(2) by (simp add: click_def Let_def)
  have d: "click s = zoomStationsLoop (startRingCycle ?s3)"
    by (simp add: c stopSimulation_def stopRingCycle_eq [OF ok1] startSimulation_def)
  have z: "intervals (zoomStationsLoop x) = intervals x \<and>
           ringInterval (zoomStationsLoop x) = ringInterval x" for x
    by (simp add: zoomStationsLoop_def rebuildStationOrder_def)
  have "intervals (startRingCycle ?s3) = [(Suc (timerSeq s), 1)] \<and>
        ringInterval (startRingCycle ?s3) = Some (Suc (timerSeq s))"
    unfolding startRingCycle_eq [OF ok3] by simp
  with z [of "startRingCycle ?s3"] show ?thesis
    unfolding d by simp
qed

lemma cycle_draws:
  assumes "intervals s0 = [(h, 1)]" "ringInterval s0 = Some h" "Click \<notin> set es"
  shows "intervals (run es s0) = [(h, Suc (count_list es (IntervalFire h) mod 7))] \<and>
         ringInterval (run es s0) = Some h \<and>
         ringLayerGroup (intervalFire h (run es s0)) =
           map (\<lambda>st. Circle (lat st) (lon st)
                  (Some ([5, 10, 15, 20, 25, 30, 40] ! (count_list es (IntervalFire h) mod 7) * 1000)))
             (stations (run es s0))"
proof -
  let ?n = "count_list es (IntervalFire h)"
  have s0: "intervals s0 = [(h, Suc (0 mod 7))]" using assms(1) by simp
  from cycle_run [OF s0 assms(3)] assms(2)
  have i: "intervals (run es s0) = [(h, Suc (?n mod 7))]"
    and ri: "ringInterval (run es s0) = Some h"
    by simp_all
  from intervalFire_single [OF i]
  have "ringLayerGroup (intervalFire h (run es s0)) =
        map (ringAt (Some ([5, 10, 15, 20, 25, 30, 40] ! (?n mod 7)))) (stations (run es s0))"
    by (simp only: stepAt_cycle)
  then have "ringLayerGroup (intervalFire h (run es s0)) =
        map (\<lambda>st. Circle (lat st) (lon st)
               (Some ([5, 10, 15, 20, 25, 30, 40] ! (?n mod 7) * 1000))) (stations (run es s0))"
    by (simp add: ringAt_def)
  with i ri show ?thesis by simp
qed

lemma cycle_metres_nonzero: "[5, 10, 15, 20, 25, 30, 40::real] ! (k mod 7) * 1000 \<noteq> 0"
  using cycle_nonzero [of k] by simp

text \<open>
  C6. Start the ring cycle in any reachable state, by calling \<open>startRingCycle\<close> or,
  from coverage state 7, by activating the button; let any events other than an
  activation of the button follow. If \<open>n\<close> of them were ticks of the cycle's timer,
  the next tick leaves on the ring layer, for every station, the circle at that
  station whose radius is \<open>km * 1000\<close> metres with
  \<open>km = [5, 10, 15, 20, 25, 30, 40] ! (n mod 7)\<close>: 5 km at the first tick, the next
  radius at each further tick, and 5 km again after 40 km. The radius drawn is never 0.
  The timer stays the only one, and its index stays in \<open>1..7\<close>.
\<close>

theorem ring_cycle_radii:
  assumes "Click \<notin> set es"
  shows "let r = run evs initial; h = Suc (timerSeq r);
             n = count_list es (IntervalFire h);
             km = [5, 10, 15, 20, 25, 30, 40] ! (n mod 7);
             s = run es (startRingCycle r);
             c = run es (click r)
         in km * 1000 \<noteq> 0 \<and>
            intervals s = [(h, Suc (n mod 7))] \<and> ringInterval s = Some h \<and>
            ringLayerGroup (intervalFire h s) =
              map (\<lambda>st. Circle (lat st) (lon st) (Some (km * 1000))) (stations s) \<and>
            (coverageState r = 7 \<longrightarrow>
               intervals c = [(h, Suc (n mod 7))] \<and> ringInterval c = Some h \<and>
               ringLayerGroup (intervalFire h c) =
                 map (\<lambda>st. Circle (lat st) (lon st) (Some (km * 1000))) (stations c))"
proof -
  define r where "r = run evs initial"
  define h where "h = Suc (timerSeq r)"
  have ok: "timersOk r" unfolding r_def by (rule timersOk_reachable)
  have a: "intervals (startRingCycle r) = [(h, 1)]" "ringInterval (startRingCycle r) = Some h"
    by (simp_all add: startRingCycle_eq [OF ok] h_def)
  note direct = cycle_draws [OF a assms]
  have button: "intervals (run es (click r)) = [(h, Suc (count_list es (IntervalFire h) mod 7))] \<and>
      ringInterval (run es (click r)) = Some h \<and>
      ringLayerGroup (intervalFire h (run es (click r))) =
        map (\<lambda>st. Circle (lat st) (lon st)
               (Some ([5, 10, 15, 20, 25, 30, 40] ! (count_list es (IntervalFire h) mod 7) * 1000)))
          (stations (run es (click r)))"
    if "coverageState r = 7"
  proof -
    from click_starts_cycle [OF ok that]
    have b: "intervals (click r) = [(h, 1)]" "ringInterval (click r) = Some h"
      by (simp_all add: h_def)
    show ?thesis by (rule cycle_draws [OF b assms])
  qed
  from direct button cycle_metres_nonzero [of "count_list es (IntervalFire h)"]
  show ?thesis
    unfolding Let_def r_def [symmetric] h_def [symmetric] by blast
qed

theorem ring_cycle_radii_witness:
  "Click \<notin> set (replicate 7 (IntervalFire 1) @ [MoveEnd]) \<and>
   coverageState (run [LoadComplete [\<lparr> latCell = Num (-33), lonCell = Num 151 \<rparr>]] initial) = 7 \<and>
   ringLayerGroup (intervalFire 1 (run ([] :: event list)
     (startRingCycle (run [LoadComplete [\<lparr> latCell = Num (-33), lonCell = Num 151 \<rparr>]] initial)))) = [Circle (-33) 151 (Some 5000)] \<and>
   ringLayerGroup (intervalFire 1 (run ([] :: event list)
     (click (run [LoadComplete [\<lparr> latCell = Num (-33), lonCell = Num 151 \<rparr>]] initial)))) = [Circle (-33) 151 (Some 5000)] \<and>
   ringLayerGroup (intervalFire 1 (run [IntervalFire 1]
     (startRingCycle (run [LoadComplete [\<lparr> latCell = Num (-33), lonCell = Num 151 \<rparr>]] initial)))) = [Circle (-33) 151 (Some 10000)] \<and>
   ringLayerGroup (intervalFire 1 (run [IntervalFire 1]
     (click (run [LoadComplete [\<lparr> latCell = Num (-33), lonCell = Num 151 \<rparr>]] initial)))) = [Circle (-33) 151 (Some 10000)] \<and>
   ringLayerGroup (intervalFire 1 (run [IntervalFire 1, MoveEnd, IntervalFire 1]
     (startRingCycle (run [LoadComplete [\<lparr> latCell = Num (-33), lonCell = Num 151 \<rparr>]] initial)))) = [Circle (-33) 151 (Some 15000)] \<and>
   ringLayerGroup (intervalFire 1 (run [IntervalFire 1, MoveEnd, IntervalFire 1]
     (click (run [LoadComplete [\<lparr> latCell = Num (-33), lonCell = Num 151 \<rparr>]] initial)))) = [Circle (-33) 151 (Some 15000)] \<and>
   ringLayerGroup (intervalFire 1 (run (replicate 6 (IntervalFire 1))
     (startRingCycle (run [LoadComplete [\<lparr> latCell = Num (-33), lonCell = Num 151 \<rparr>]] initial)))) = [Circle (-33) 151 (Some 40000)] \<and>
   ringLayerGroup (intervalFire 1 (run (replicate 6 (IntervalFire 1))
     (click (run [LoadComplete [\<lparr> latCell = Num (-33), lonCell = Num 151 \<rparr>]] initial)))) = [Circle (-33) 151 (Some 40000)] \<and>
   ringLayerGroup (intervalFire 1 (run (replicate 7 (IntervalFire 1) @ [MoveEnd])
     (startRingCycle (run [LoadComplete [\<lparr> latCell = Num (-33), lonCell = Num 151 \<rparr>]] initial)))) = [Circle (-33) 151 (Some 5000)] \<and>
   ringLayerGroup (intervalFire 1 (run (replicate 7 (IntervalFire 1) @ [MoveEnd])
     (click (run [LoadComplete [\<lparr> latCell = Num (-33), lonCell = Num 151 \<rparr>]] initial)))) = [Circle (-33) 151 (Some 5000)]"
proof -
  let ?evs = "[LoadComplete [\<lparr> latCell = Num (-33), lonCell = Num 151 \<rparr>]]"
  let ?r = "run ?evs initial"
  have e1: "Suc (timerSeq ?r) = 1" by code_simp
  have c7: "coverageState ?r = 7" by code_simp
  have w0: "ringLayerGroup (intervalFire 1 (run ([] :: event list) (startRingCycle ?r))) =
        [Circle (-33) 151 (Some 5000)] \<and>
      ringLayerGroup (intervalFire 1 (run ([] :: event list) (click ?r))) = [Circle (-33) 151 (Some 5000)]"
  proof -
    have h: "Click \<notin> set ([] :: event list)" by simp
    have n: "count_list ([] :: event list) (IntervalFire 1) = 0" by code_simp
    have st: "stations (run ([] :: event list) (startRingCycle ?r)) = [\<lparr> lat = -33, lon = 151 \<rparr>]"
      "stations (run ([] :: event list) (click ?r)) = [\<lparr> lat = -33, lon = 151 \<rparr>]"
      by code_simp+
    from ring_cycle_radii [OF h, of ?evs] show ?thesis
      unfolding Let_def e1 n st using c7 by simp
  qed
  have w1: "ringLayerGroup (intervalFire 1 (run [IntervalFire 1] (startRingCycle ?r))) =
        [Circle (-33) 151 (Some 10000)] \<and>
      ringLayerGroup (intervalFire 1 (run [IntervalFire 1] (click ?r))) = [Circle (-33) 151 (Some 10000)]"
  proof -
    have h: "Click \<notin> set [IntervalFire 1]" by simp
    have n: "count_list [IntervalFire 1] (IntervalFire 1) = 1" by code_simp
    have st: "stations (run [IntervalFire 1] (startRingCycle ?r)) = [\<lparr> lat = -33, lon = 151 \<rparr>]"
      "stations (run [IntervalFire 1] (click ?r)) = [\<lparr> lat = -33, lon = 151 \<rparr>]"
      by code_simp+
    from ring_cycle_radii [OF h, of ?evs] show ?thesis
      unfolding Let_def e1 n st using c7 by simp
  qed
  have w2: "ringLayerGroup (intervalFire 1 (run [IntervalFire 1, MoveEnd, IntervalFire 1] (startRingCycle ?r))) =
        [Circle (-33) 151 (Some 15000)] \<and>
      ringLayerGroup (intervalFire 1 (run [IntervalFire 1, MoveEnd, IntervalFire 1] (click ?r))) = [Circle (-33) 151 (Some 15000)]"
  proof -
    have h: "Click \<notin> set [IntervalFire 1, MoveEnd, IntervalFire 1]" by simp
    have n: "count_list [IntervalFire 1, MoveEnd, IntervalFire 1] (IntervalFire 1) = 2" by code_simp
    have st: "stations (run [IntervalFire 1, MoveEnd, IntervalFire 1] (startRingCycle ?r)) = [\<lparr> lat = -33, lon = 151 \<rparr>]"
      "stations (run [IntervalFire 1, MoveEnd, IntervalFire 1] (click ?r)) = [\<lparr> lat = -33, lon = 151 \<rparr>]"
      by code_simp+
    from ring_cycle_radii [OF h, of ?evs] show ?thesis
      unfolding Let_def e1 n st using c7 by simp
  qed
  have w6: "ringLayerGroup (intervalFire 1 (run (replicate 6 (IntervalFire 1)) (startRingCycle ?r))) =
        [Circle (-33) 151 (Some 40000)] \<and>
      ringLayerGroup (intervalFire 1 (run (replicate 6 (IntervalFire 1)) (click ?r))) = [Circle (-33) 151 (Some 40000)]"
  proof -
    have h: "Click \<notin> set (replicate 6 (IntervalFire 1))" by simp
    have n: "count_list (replicate 6 (IntervalFire 1)) (IntervalFire 1) = 6" by code_simp
    have st: "stations (run (replicate 6 (IntervalFire 1)) (startRingCycle ?r)) = [\<lparr> lat = -33, lon = 151 \<rparr>]"
      "stations (run (replicate 6 (IntervalFire 1)) (click ?r)) = [\<lparr> lat = -33, lon = 151 \<rparr>]"
      by code_simp+
    from ring_cycle_radii [OF h, of ?evs] show ?thesis
      unfolding Let_def e1 n st using c7 by simp
  qed
  have w7: "ringLayerGroup (intervalFire 1 (run (replicate 7 (IntervalFire 1) @ [MoveEnd]) (startRingCycle ?r))) =
        [Circle (-33) 151 (Some 5000)] \<and>
      ringLayerGroup (intervalFire 1 (run (replicate 7 (IntervalFire 1) @ [MoveEnd]) (click ?r))) = [Circle (-33) 151 (Some 5000)]"
  proof -
    have h: "Click \<notin> set (replicate 7 (IntervalFire 1) @ [MoveEnd])" by simp
    have n: "count_list (replicate 7 (IntervalFire 1) @ [MoveEnd]) (IntervalFire 1) = 7" by code_simp
    have st: "stations (run (replicate 7 (IntervalFire 1) @ [MoveEnd]) (startRingCycle ?r)) = [\<lparr> lat = -33, lon = 151 \<rparr>]"
      "stations (run (replicate 7 (IntervalFire 1) @ [MoveEnd]) (click ?r)) = [\<lparr> lat = -33, lon = 151 \<rparr>]"
      by code_simp+
    from ring_cycle_radii [OF h, of ?evs] show ?thesis
      unfolding Let_def e1 n st using c7 by simp
  qed
  from w0 w1 w2 w6 w7 c7 show ?thesis by simp
qed

section \<open>Cancellation of the tour loop\<close>

lemma loopHead_stopped: "\<not> simRunning s \<Longrightarrow> loopHead i s = (s, Returned)"
  by (simp add: loopHead_def)

lemma resume_stopped: "\<not> simRunning s \<Longrightarrow> resume t s = (s, Returned)"
  by (cases "waiting t") (simp_all add: resume_def loopHead_stopped)

lemma resumeAll_stopped: "\<not> simRunning s \<Longrightarrow> resumeAll ts s = s"
  by (induction ts) (simp_all add: resume_stopped settle_def)

lemma moveEnd_stopped:
  "\<not> simRunning s \<Longrightarrow> moveEnd s = s\<lparr> tours := filter (\<lambda>t. \<not> awaitsFly t) (tours s) \<rparr>"
  by (simp add: moveEnd_def resumeAll_stopped)

lemma sleepFire_stopped:
  "\<not> simRunning s \<Longrightarrow> k < length (tours s) \<Longrightarrow> \<not> awaitsFly (tours s ! k) \<Longrightarrow>
     sleepFire k s = s\<lparr> tours := take k (tours s) @ drop (Suc k) (tours s) \<rparr>"
  by (simp add: sleepFire_def resume_stopped settle_def)

lemma zoomStationsLoop_stopped:
  "\<not> simRunning s \<Longrightarrow>
     tours (zoomStationsLoop s) = tours s \<and> flyLog (zoomStationsLoop s) = flyLog s"
  by (simp add: zoomStationsLoop_def loopHead_stopped settle_def rebuildStationOrder_def)

text \<open>With the flag up, each resumption performs exactly the next step of the source.\<close>

lemma resume_running:
  assumes "simRunning s"
  shows "resume \<lparr> waiting = Poll, idx = i \<rparr> s = loopHead i s"
    and "resume \<lparr> waiting = FlyBase1 tg, idx = i \<rparr> s =
           (flyTo tg ZOOM_CLOSE FLY_DUR_CLOSE s, Suspended \<lparr> waiting = FlyClose tg, idx = i \<rparr>)"
    and "resume \<lparr> waiting = FlyClose tg, idx = i \<rparr> s =
           (s, Suspended \<lparr> waiting = PauseClose tg, idx = i \<rparr>)"
    and "resume \<lparr> waiting = PauseClose tg, idx = i \<rparr> s =
           (flyTo tg ZOOM_BASE FLY_DUR_BASE s, Suspended \<lparr> waiting = FlyBase2, idx = i \<rparr>)"
    and "resume \<lparr> waiting = FlyBase2, idx = i \<rparr> s =
           (s, Suspended \<lparr> waiting = PauseBetween, idx = i \<rparr>)"
    and "resume \<lparr> waiting = PauseBetween, idx = i \<rparr> s = loopHead (i + 1) s"
  using assms by (simp_all add: resume_def)

text \<open>
  C2. Every piece of the tour loop between two suspension points begins by testing
  \<open>simRunning\<close>: whichever \<^verbatim>\<open>await\<close> an activation is suspended at, if the flag is
  false when it resumes, it returns at once and leaves the page as it is, so it starts
  no further step and calls \<open>flyTo\<close> no more. A \<open>moveend\<close> or a timeout that arrives while
  the flag is false therefore only removes the activations it resumes. And
  \<open>zoomStationsLoop\<close> entered with the flag false returns before its first \<^verbatim>\<open>await\<close>:
  no activation is left suspended and \<open>flyTo\<close> is not called, whatever the stations.
\<close>

theorem tour_exits_when_flag_is_lowered:
  assumes "\<not> simRunning s"
  shows "resume t s = (s, Returned) \<and>
         tours (zoomStationsLoop s) = tours s \<and> flyLog (zoomStationsLoop s) = flyLog s \<and>
         tours (moveEnd s) = filter (\<lambda>t. \<not> awaitsFly t) (tours s) \<and> flyLog (moveEnd s) = flyLog s \<and>
         length (tours (sleepFire k s)) \<le> length (tours s) \<and> flyLog (sleepFire k s) = flyLog s"
proof -
  have "length (tours (sleepFire k s)) \<le> length (tours s) \<and> flyLog (sleepFire k s) = flyLog s"
  proof (cases "k < length (tours s) \<and> \<not> awaitsFly (tours s ! k)")
    case True
    then show ?thesis using assms by (simp add: sleepFire_stopped)
  next
    case False
    then show ?thesis by (auto simp: sleepFire_def)
  qed
  then show ?thesis
    using assms by (simp add: resume_stopped zoomStationsLoop_stopped moveEnd_stopped)
qed

theorem tour_exits_when_flag_is_lowered_witness:
  "\<not> simRunning
     (run [LoadComplete [\<lparr> latCell = Num (-33), lonCell = Num 151 \<rparr>], Click, Click] initial) \<and>
   tours (run [LoadComplete [\<lparr> latCell = Num (-33), lonCell = Num 151 \<rparr>], Click, Click] initial)
     = [\<lparr> waiting = FlyBase1 (-33, 151), idx = 0 \<rparr>] \<and>
   tours (moveEnd
     (run [LoadComplete [\<lparr> latCell = Num (-33), lonCell = Num 151 \<rparr>], Click, Click] initial))
     = [] \<and>
   flyLog (moveEnd
     (run [LoadComplete [\<lparr> latCell = Num (-33), lonCell = Num 151 \<rparr>], Click, Click] initial))
     = [\<lparr> target = (-33, 151), zoom = 15, duration = 20 \<rparr>]"
proof -
  let ?s = "run [LoadComplete [\<lparr> latCell = Num (-33), lonCell = Num 151 \<rparr>], Click, Click] initial"
  have a: "\<not> simRunning ?s" by code_simp
  have b: "tours ?s = [\<lparr> waiting = FlyBase1 (-33, 151), idx = 0 \<rparr>]" by code_simp
  have c: "flyLog ?s = [\<lparr> target = (-33, 151), zoom = 15, duration = 20 \<rparr>]" by code_simp
  from tour_exits_when_flag_is_lowered [OF a] show ?thesis
    using a b c by simp
qed

section \<open>The order invariant and the start of a tour\<close>

lemma orderFresh_initial: "orderFresh initial"
  by (simp add: orderFresh_def initial_def keyed_def)

lemma orderFresh_cong:
  "stations a = stations b \<Longrightarrow> stationOrder a = stationOrder b \<Longrightarrow> orderFresh a = orderFresh b"
  by (simp add: orderFresh_def)

lemma orderFresh_rebuild: "orderFresh (rebuildStationOrder s)"
  by (simp add: orderFresh_def rebuildStationOrder_def)

lemma rebuild_fresh: "orderFresh s \<Longrightarrow> rebuildStationOrder s = s"
  by (simp add: orderFresh_def rebuildStationOrder_def)

lemma zoomStationsLoop_fresh:
  "orderFresh s \<Longrightarrow> zoomStationsLoop s = settle (loopHead 0 s)"
  by (simp add: zoomStationsLoop_def rebuild_fresh)

lemma stations_order_startRingCycle [simp]:
  "stations (startRingCycle s) = stations s \<and> stationOrder (startRingCycle s) = stationOrder s \<and>
   simRunning (startRingCycle s) = simRunning s \<and> tours (startRingCycle s) = tours s \<and>
   flyLog (startRingCycle s) = flyLog s"
  by (simp add: startRingCycle_def clearCoverage_def clearRingInterval_def clearInterval_def Let_def
      split: option.splits)

lemma stations_order_stopSimulation [simp]:
  "stations (stopSimulation s) = stations s \<and> stationOrder (stopSimulation s) = stationOrder s \<and>
   simRunning (stopSimulation s) = False \<and> tours (stopSimulation s) = tours s \<and>
   flyLog (stopSimulation s) = flyLog s"
  by (simp add: stopSimulation_def stopRingCycle_def clearRingInterval_def clearInterval_def
      split: option.splits)

lemma stations_order_drawSingleRing [simp]:
  "stations (drawSingleRing km s) = stations s \<and> stationOrder (drawSingleRing km s) = stationOrder s"
  by (simp add: drawSingleRing_def clearCoverage_def Let_def)

lemma orderFresh_startSimulation: "orderFresh s \<Longrightarrow> orderFresh (startSimulation s)"
proof -
  assume a: "orderFresh s"
  have b: "orderFresh (startRingCycle (s\<lparr> simRunning := True \<rparr>))"
    using a by (simp add: orderFresh_def)
  show ?thesis
    using a by (simp add: startSimulation_def zoomStationsLoop_fresh [OF b]) (simp add: orderFresh_def)
qed

lemma orderFresh_button_update [simp]:
  "orderFresh (s\<lparr> coverageState := c, btnClass := d, btnText := l \<rparr>) = orderFresh s"
  by (rule orderFresh_cong) simp_all

lemma orderFresh_stopSimulation [simp]: "orderFresh (stopSimulation s) = orderFresh s"
  by (rule orderFresh_cong) simp_all

lemma orderFresh_clearCoverage [simp]: "orderFresh (clearCoverage s) = orderFresh s"
  by (rule orderFresh_cong) (simp_all add: clearCoverage_def)

lemma orderFresh_drawSingleRing [simp]: "orderFresh (drawSingleRing km s) = orderFresh s"
  by (rule orderFresh_cong) simp_all

lemma orderFresh_click: "orderFresh s \<Longrightarrow> orderFresh (click s)"
  by (simp add: click_def Let_def orderFresh_startSimulation)

lemma orderFresh_loadComplete: "orderFresh (loadComplete rows s)"
  by (simp add: loadComplete_def Let_def orderFresh_def rebuildStationOrder_def)

lemma orderFresh_intervalFire [simp]: "orderFresh (intervalFire h s) = orderFresh s"
  by (rule orderFresh_cong) (simp_all add: intervalFire_def split: option.splits)

lemma orderFresh_moveEnd [simp]: "orderFresh (moveEnd s) = orderFresh s"
  by (rule orderFresh_cong) simp_all

lemma orderFresh_sleepFire [simp]: "orderFresh (sleepFire k s) = orderFresh s"
  by (rule orderFresh_cong) simp_all

lemma orderFresh_step: "orderFresh s \<Longrightarrow> orderFresh (step e s)"
  by (cases e) (simp_all add: orderFresh_click orderFresh_loadComplete)

lemma orderFresh_run: "orderFresh s \<Longrightarrow> orderFresh (run evs s)"
  by (induction evs arbitrary: s) (simp_all add: orderFresh_step)

lemma orderFresh_reachable: "orderFresh (run evs initial)"
  by (simp add: orderFresh_run orderFresh_initial)

lemma orderFresh_perm:
  assumes "orderFresh s"
  shows "mset (stationOrder s) = mset [0..<length (stations s)]"
proof -
  have "rebuildStationOrder s = s" using assms by (rule rebuild_fresh)
  with order_mset [of s] show ?thesis by simp
qed

lemma orderFresh_sorted:
  assumes "orderFresh s"
  shows "sorted_wrt (\<lambda>i j. lat (stations s ! j) \<le> lat (stations s ! i)) (stationOrder s)"
proof -
  have "rebuildStationOrder s = s" using assms by (rule rebuild_fresh)
  with order_sorted [of s] show ?thesis by simp
qed

lemma orderFresh_head:
  assumes "orderFresh s" "stations s \<noteq> []"
  shows "stationOrder s \<noteq> [] \<and> stationOrder s ! 0 < length (stations s) \<and>
         (\<forall>x\<in>set (stations s). lat x \<le> lat (stations s ! (stationOrder s ! 0)))"
proof -
  have "set (stationOrder s) = set [0..<length (stations s)]"
    by (rule mset_eq_setD) (rule orderFresh_perm [OF assms(1)])
  then have se: "set (stationOrder s) = {0..<length (stations s)}" by simp
  from assms(2) have "0 \<in> {0..<length (stations s)}" by simp
  with se have ne: "stationOrder s \<noteq> []" by fastforce
  then obtain i rest where o: "stationOrder s = i # rest" by (cases "stationOrder s") auto
  from se o have i: "i < length (stations s)" by auto
  have "lat x \<le> lat (stations s ! i)" if "x \<in> set (stations s)" for x
  proof -
    from that obtain j where j: "j < length (stations s)" "x = stations s ! j"
      by (auto simp: in_set_conv_nth)
    from j(1) se have "j \<in> set (stationOrder s)" by simp
    with o have "j = i \<or> j \<in> set rest" by simp
    moreover have "\<forall>k\<in>set rest. lat (stations s ! k) \<le> lat (stations s ! i)"
      using orderFresh_sorted [OF assms(1)] o by simp
    ultimately show ?thesis using j(2) by auto
  qed
  with ne i o show ?thesis by simp
qed

text \<open>
  A simulation that is started begins at order index 0: with stations loaded, the new
  activation flies to the station at \<open>stationOrder ! 0\<close>, which no station lies north
  of; with none loaded, it polls with its counter at 0.
\<close>

lemma startSimulation_begins_at_order_0:
  assumes "orderFresh s" "\<not> simRunning s" "stations s \<noteq> []"
  shows "tours (startSimulation s) = tours s @
           [\<lparr> waiting = FlyBase1 (lat (stations s ! (stationOrder s ! 0)),
                                  lon (stations s ! (stationOrder s ! 0))), idx = 0 \<rparr>] \<and>
         (\<forall>x\<in>set (stations s). lat x \<le> lat (stations s ! (stationOrder s ! 0)))"
proof -
  let ?s1 = "startRingCycle (s\<lparr> simRunning := True \<rparr>)"
  have f: "orderFresh ?s1" using assms(1) by (simp add: orderFresh_def)
  from orderFresh_head [OF assms(1,3)]
  have h: "stationOrder s \<noteq> []" "stationOrder s ! 0 < length (stations s)"
    "\<forall>x\<in>set (stations s). lat x \<le> lat (stations s ! (stationOrder s ! 0))" by simp_all
  have "tours (settle (loopHead 0 ?s1)) = tours s @
           [\<lparr> waiting = FlyBase1 (lat (stations s ! (stationOrder s ! 0)),
                                  lon (stations s ! (stationOrder s ! 0))), idx = 0 \<rparr>]"
    using h(1,2) assms(3) by (simp add: loopHead_def settle_def Let_def flyTo_def)
  with h(3) assms(2) show ?thesis
    by (simp add: startSimulation_def zoomStationsLoop_fresh [OF f])
qed

lemma startSimulation_empty_store_idx_0:
  assumes "\<not> simRunning s" "stations s = []"
  shows "tours (startSimulation s) = tours s @ [\<lparr> waiting = Poll, idx = 0 \<rparr>]"
  using assms
  by (simp add: startSimulation_def zoomStationsLoop_def loopHead_def settle_def
      rebuildStationOrder_def)

section \<open>Stopping and restarting the simulation\<close>

text \<open>
  What the button does around state 8, in any state that satisfies the timer
  invariant: the activation that leaves state 8 lowers the flag and clears the timer,
  and leaves the suspended activations of the tour loop where they are (they end when
  they next resume and find the flag false); the activation that enters state 8
  raises the flag, installs one timer and adds at most one activation.
\<close>

lemma click_from_8:
  "coverageState s = 8 \<Longrightarrow>
     click s = clearCoverage (stopSimulation (s\<lparr> coverageState := 0, btnClass := 0, btnText := NoText \<rparr>))"
  by (simp add: click_def Let_def)

lemma click_from_7:
  "coverageState s = 7 \<Longrightarrow>
     click s = startSimulation (stopSimulation (s\<lparr> coverageState := 8, btnClass := 8, btnText := NoText \<rparr>))"
  by (simp add: click_def Let_def)

lemma click_leaves_simulation:
  assumes "timersOk s" "coverageState s = 8"
  shows "\<not> simRunning (click s) \<and> intervals (click s) = [] \<and> ringInterval (click s) = None \<and>
         tours (click s) = tours s"
proof -
  let ?s1 = "s\<lparr> coverageState := 0, btnClass := 0, btnText := NoText, simRunning := False \<rparr>"
  have "timersOk ?s1" using assms(1) by simp
  then show ?thesis
    by (simp add: click_from_8 [OF assms(2)] stopSimulation_def stopRingCycle_eq clearCoverage_def)
qed

lemma click_enters_simulation:
  assumes "timersOk s" "coverageState s = 7"
  shows "simRunning (click s) \<and> length (intervals (click s)) = 1 \<and>
         length (tours (click s)) \<le> Suc (length (tours s))"
proof -
  let ?s1 = "s\<lparr> coverageState := 8, btnClass := 8, btnText := NoText, simRunning := False \<rparr>"
  let ?s2 = "?s1\<lparr> intervals := [], ringInterval := None \<rparr>"
  let ?s3 = "?s2\<lparr> simRunning := True \<rparr>"
  have ok1: "timersOk ?s1" using assms(1) by simp
  have ok3: "timersOk ?s3" by (simp add: timersOk_def)
  have c: "click s = zoomStationsLoop (startRingCycle ?s3)"
    by (simp add: click_from_7 [OF assms(2)] stopSimulation_def stopRingCycle_eq [OF ok1]
        startSimulation_def)
  have z: "simRunning (zoomStationsLoop x) = simRunning x \<and> intervals (zoomStationsLoop x) = intervals x \<and>
        length (tours (zoomStationsLoop x)) \<le> Suc (length (tours x))" for x
    by (simp add: zoomStationsLoop_def rebuildStationOrder_def settle_def loopHead_def Let_def flyTo_def
        split: outcome.splits)
  have "simRunning (startRingCycle ?s3) \<and>
      intervals (startRingCycle ?s3) = [(Suc (timerSeq s), 1)] \<and>
      tours (startRingCycle ?s3) = tours s"
    unfolding startRingCycle_eq [OF ok3] by simp
  with z [of "startRingCycle ?s3"] show ?thesis
    unfolding c by simp
qed

text \<open>
  C1 fails on the code. One station is loaded and the button is activated ten times
  (7 to 8, then round to 8 again) before the first fly of the tour has ended. The
  first activation of \<open>zoomStationsLoop\<close> is still suspended when the second is
  started, the flag is true again when the \<open>moveend\<close> resumes both, and both go on:
  two tour loops are active, each has called \<open>flyTo\<close> twice.
\<close>

theorem restart_leaves_two_tour_loops:
  "tours (run (LoadComplete [\<lparr> latCell = Num (-33), lonCell = Num 151 \<rparr>] # replicate 10 Click) initial) =
     [\<lparr> waiting = FlyBase1 (-33, 151), idx = 0 \<rparr>, \<lparr> waiting = FlyBase1 (-33, 151), idx = 0 \<rparr>] \<and>
   simRunning (run (LoadComplete [\<lparr> latCell = Num (-33), lonCell = Num 151 \<rparr>] # replicate 10 Click) initial) \<and>
   tours (run (LoadComplete [\<lparr> latCell = Num (-33), lonCell = Num 151 \<rparr>] # replicate 10 Click @ [MoveEnd]) initial) =
     [\<lparr> waiting = FlyClose (-33, 151), idx = 0 \<rparr>, \<lparr> waiting = FlyClose (-33, 151), idx = 0 \<rparr>] \<and>
   flyLog (run (LoadComplete [\<lparr> latCell = Num (-33), lonCell = Num 151 \<rparr>] # replicate 10 Click @ [MoveEnd]) initial) =
     [\<lparr> target = (-33, 151), zoom = 15, duration = 20 \<rparr>, \<lparr> target = (-33, 151), zoom = 15, duration = 20 \<rparr>,
      \<lparr> target = (-33, 151), zoom = 11, duration = 25 \<rparr>, \<lparr> target = (-33, 151), zoom = 11, duration = 25 \<rparr>]"
  by code_simp

text \<open>
  C10 fails on the code through the same defect. Of two stations the tour has
  finished the northern one and is flying to the second (counter 1) when the
  simulation is stopped; it is started again (eight more activations) before that
  fly ends. The new activation starts at counter 0, but the old one resumes with
  counter 1 and continues its tour at the second station.
\<close>

theorem stale_tour_resumes_after_restart:
  "simRunning (run [LoadComplete [\<lparr> latCell = Num (-37), lonCell = Num 145 \<rparr>, \<lparr> latCell = Num (-33), lonCell = Num 151 \<rparr>],
       Click, MoveEnd, MoveEnd, SleepFire 0, MoveEnd, SleepFire 0, Click] initial) = False \<and>
   tours (run [LoadComplete [\<lparr> latCell = Num (-37), lonCell = Num 145 \<rparr>, \<lparr> latCell = Num (-33), lonCell = Num 151 \<rparr>],
       Click, MoveEnd, MoveEnd, SleepFire 0, MoveEnd, SleepFire 0, Click] initial) =
     [\<lparr> waiting = FlyBase1 (-37, 145), idx = 1 \<rparr>] \<and>
   tours (run ([LoadComplete [\<lparr> latCell = Num (-37), lonCell = Num 145 \<rparr>, \<lparr> latCell = Num (-33), lonCell = Num 151 \<rparr>],
       Click, MoveEnd, MoveEnd, SleepFire 0, MoveEnd, SleepFire 0, Click] @ replicate 8 Click @ [MoveEnd]) initial) =
     [\<lparr> waiting = FlyClose (-37, 145), idx = 1 \<rparr>, \<lparr> waiting = FlyClose (-33, 151), idx = 0 \<rparr>]"
  by code_simp

end
